theory Spec2Isabelle
  imports Main "HOL-Library.Word" "HOL-Library.Sublist"
begin

section \<open>Strings and numbers of the source language\<close>

text \<open>
  The viewer is TypeScript. A string is a sequence of UTF-16 code units:
  \<^verbatim>\<open>length\<close> counts code units and \<^verbatim>\<open>substring\<close> cuts at code units. The
  offsets \<^verbatim>\<open>position_start\<close> and \<^verbatim>\<open>position_end\<close> are integer columns of the
  storage layer and may be negative or larger than the text, so they are \<^typ>\<open>int\<close>.
\<close>

type_synonym code_unit = "16 word"
type_synonym js_string = "code_unit list"

definition js :: "string \<Rightarrow> js_string" where
  \<comment> \<open>An ASCII literal of the source as code units.\<close>
  "js s = map of_char s"

definition clamp_index :: "js_string \<Rightarrow> int \<Rightarrow> nat" where
  \<comment> \<open>\<^verbatim>\<open>min(max(i, 0), len)\<close>, the first step of \<^verbatim>\<open>String.prototype.substring\<close>.\<close>
  "clamp_index s i = nat (min (max i 0) (int (length s)))"

definition substring_from :: "js_string \<Rightarrow> int \<Rightarrow> int \<Rightarrow> nat" where
  \<comment> \<open>Where the slice of \<^verbatim>\<open>s.substring(a, b)\<close> begins: the smaller clamped argument.\<close>
  "substring_from s a b = min (clamp_index s a) (clamp_index s b)"

definition substring_to :: "js_string \<Rightarrow> int \<Rightarrow> int \<Rightarrow> nat" where
  \<comment> \<open>Where the slice of \<^verbatim>\<open>s.substring(a, b)\<close> ends: the larger clamped argument.\<close>
  "substring_to s a b = max (clamp_index s a) (clamp_index s b)"

definition substring :: "js_string \<Rightarrow> int \<Rightarrow> int \<Rightarrow> js_string" where
  \<comment> \<open>\<^verbatim>\<open>s.substring(a, b)\<close>: both arguments are clamped into \<open>[0, len]\<close> and swapped
      when the first is the larger; it never throws.\<close>
  "substring s a b =
     take (substring_to s a b - substring_from s a b) (drop (substring_from s a b) s)"

definition substring1 :: "js_string \<Rightarrow> int \<Rightarrow> js_string" where
  \<comment> \<open>\<^verbatim>\<open>s.substring(a)\<close>: the end defaults to the length of \<open>s\<close>.\<close>
  "substring1 s a = substring s a (int (length s))"

definition is_js_whitespace :: "code_unit \<Rightarrow> bool" where
  \<comment> \<open>The WhiteSpace and LineTerminator code points of ECMAScript, which
      \<^verbatim>\<open>String.prototype.trim\<close> removes.\<close>
  "is_js_whitespace c =
     (c \<in> {0x0009, 0x000A, 0x000B, 0x000C, 0x000D, 0x0020, 0x00A0, 0x1680,
            0x2028, 0x2029, 0x202F, 0x205F, 0x3000, 0xFEFF}
      \<or> (0x2000 \<le> c \<and> c \<le> 0x200A))"

definition trim :: "js_string \<Rightarrow> js_string" where
  \<comment> \<open>\<^verbatim>\<open>s.trim()\<close>: white space is removed from both ends.\<close>
  "trim s = rev (dropWhile is_js_whitespace (rev (dropWhile is_js_whitespace s)))"

section \<open>Rows of the storage layer\<close>

text \<open>The \<^verbatim>\<open>Row\<close> types of \<^verbatim>\<open>database.types.ts\<close>.\<close>

record document =
  id_doc :: js_string
  user_id_doc :: js_string
  title :: js_string
  content_doc :: js_string
  file_type :: js_string
  file_size :: int
  tags :: "js_string list"
  created_at_doc :: js_string
  updated_at_doc :: js_string

record annotation =
  id_ann :: js_string
  user_id :: js_string
  document_id :: js_string
  content :: js_string
  highlighted_text :: js_string
  position_start :: int
  position_end :: int
  color :: js_string
  created_at :: js_string
  updated_at :: js_string

section \<open>The document viewer\<close>

subsection \<open>State of the component\<close>

record selected =
  text_sel :: js_string
  docId :: js_string
  start :: int
  end_sel :: int

record viewer_state =
  annotations :: "js_string \<rightharpoonup> annotation list"
  selectedText :: "selected option"
  showAnnotationForm :: bool
  isFullscreen :: bool

subsection \<open>Sorting the highlights\<close>

text \<open>
  \<^verbatim>\<open>docAnnotations.sort((a, b) => a.position_start - b.position_start)\<close>.
  \<^verbatim>\<open>Array.prototype.sort\<close> is stable (ECMAScript 2019 and later): it is modelled
  as the stable insertion sort driven by the comparator, an element going in front of
  the first element it does not compare greater than.
\<close>

definition compare_start :: "annotation \<Rightarrow> annotation \<Rightarrow> int" where
  "compare_start a b = position_start a - position_start b"

fun insert_sorted :: "('a \<Rightarrow> 'a \<Rightarrow> int) \<Rightarrow> 'a \<Rightarrow> 'a list \<Rightarrow> 'a list" where
  "insert_sorted cmp x [] = [x]"
| "insert_sorted cmp x (y # ys) =
     (if cmp x y \<le> 0 then x # y # ys else y # insert_sorted cmp x ys)"

fun array_sort :: "('a \<Rightarrow> 'a \<Rightarrow> int) \<Rightarrow> 'a list \<Rightarrow> 'a list" where
  "array_sort cmp [] = []"
| "array_sort cmp (x # xs) = insert_sorted cmp x (array_sort cmp xs)"

definition highlights :: "annotation list \<Rightarrow> annotation list" where
  "highlights docAnnotations = array_sort compare_start docAnnotations"

subsection \<open>Segments\<close>

record segment =
  text_seg :: js_string
  highlighted :: bool
  annotation_seg :: "annotation option"

definition plain_segment :: "js_string \<Rightarrow> segment" where
  \<comment> \<open>\<^verbatim>\<open>{ text, highlighted: false }\<close>\<close>
  "plain_segment t = \<lparr>text_seg = t, highlighted = False, annotation_seg = None\<rparr>"

definition highlight_segment :: "js_string \<Rightarrow> annotation \<Rightarrow> segment" where
  \<comment> \<open>\<^verbatim>\<open>{ text, highlighted: true, annotation: ann }\<close>\<close>
  "highlight_segment t ann = \<lparr>text_seg = t, highlighted = True, annotation_seg = Some ann\<rparr>"

text \<open>
  The body of the \<^verbatim>\<open>forEach\<close>: the state is the array \<^verbatim>\<open>segments\<close> and the
  cursor \<^verbatim>\<open>lastIndex\<close>.
\<close>

definition forEach_body :: "js_string \<Rightarrow> segment list \<times> int \<Rightarrow> annotation \<Rightarrow> segment list \<times> int" where
  "forEach_body doc_content st ann =
     (let (segments, lastIndex) = st;
          segments1 =
            (if position_start ann > lastIndex
             then segments @ [plain_segment (substring doc_content lastIndex (position_start ann))]
             else segments);
          segments2 =
            segments1 @
              [highlight_segment (substring doc_content (position_start ann) (position_end ann)) ann]
      in (segments2, position_end ann))"

definition trailing :: "js_string \<Rightarrow> segment list \<times> int \<Rightarrow> segment list" where
  \<comment> \<open>The \<^verbatim>\<open>if (lastIndex < doc.content.length)\<close> after the loop.\<close>
  "trailing doc_content st =
     (let (segments, lastIndex) = st
      in if lastIndex < int (length doc_content)
         then segments @ [plain_segment (substring1 doc_content lastIndex)]
         else segments)"

definition build_segments :: "js_string \<Rightarrow> annotation list \<Rightarrow> segment list" where
  \<comment> \<open>Lines 82 to 110: sort, walk, trailing segment.\<close>
  "build_segments doc_content docAnnotations =
     trailing doc_content (foldl (forEach_body doc_content) ([], 0) (highlights docAnnotations))"

text \<open>
  What the function returns: the content itself when there is no annotation, otherwise
  a fragment with one element per segment (\<^verbatim>\<open>mark\<close> when highlighted,
  \<^verbatim>\<open>span\<close> otherwise).
\<close>

datatype rendered = RawText js_string | Fragment "segment list"

definition render :: "js_string \<Rightarrow> annotation list \<Rightarrow> rendered" where
  "render doc_content docAnnotations =
     (if length docAnnotations = 0 then RawText doc_content
      else Fragment (build_segments doc_content docAnnotations))"

definition renderDocumentWithHighlights :: "viewer_state \<Rightarrow> document \<Rightarrow> rendered" where
  \<comment> \<open>\<^verbatim>\<open>annotations[doc.id] || []\<close>: a document without an entry has no annotation.\<close>
  "renderDocumentWithHighlights st doc =
     render (content_doc doc)
       (case annotations st (id_doc doc) of None \<Rightarrow> [] | Some anns \<Rightarrow> anns)"

definition segments_of :: "rendered \<Rightarrow> segment list" where
  \<comment> \<open>The runs of text on the screen: a bare string is one run that is not highlighted.\<close>
  "segments_of r = (case r of RawText t \<Rightarrow> [plain_segment t] | Fragment segs \<Rightarrow> segs)"

definition rendered_text :: "rendered \<Rightarrow> js_string" where
  \<comment> \<open>The text of the container, in document order.\<close>
  "rendered_text r = concat (map text_seg (segments_of r))"

text \<open>
  The same walk as a recursion over the sorted annotations, from a cursor: the segments
  it pushes, the trailing one included. \<open>walk_starts\<close> lists, for each of these
  segments, the offset in the content at which its slice begins.
\<close>

fun walk :: "js_string \<Rightarrow> int \<Rightarrow> annotation list \<Rightarrow> segment list" where
  "walk doc_content lastIndex [] =
     (if lastIndex < int (length doc_content)
      then [plain_segment (substring1 doc_content lastIndex)] else [])"
| "walk doc_content lastIndex (ann # anns) =
     (if position_start ann > lastIndex
      then [plain_segment (substring doc_content lastIndex (position_start ann))] else []) @
     highlight_segment (substring doc_content (position_start ann) (position_end ann)) ann #
     walk doc_content (position_end ann) anns"

fun walk_starts :: "js_string \<Rightarrow> int \<Rightarrow> annotation list \<Rightarrow> nat list" where
  "walk_starts doc_content lastIndex [] =
     (if lastIndex < int (length doc_content)
      then [substring_from doc_content lastIndex (int (length doc_content))] else [])"
| "walk_starts doc_content lastIndex (ann # anns) =
     (if position_start ann > lastIndex
      then [substring_from doc_content lastIndex (position_start ann)] else []) @
     substring_from doc_content (position_start ann) (position_end ann) #
     walk_starts doc_content (position_end ann) anns"

definition segment_starts :: "js_string \<Rightarrow> annotation list \<Rightarrow> nat list" where
  "segment_starts doc_content docAnnotations =
     (if length docAnnotations = 0 then [0]
      else walk_starts doc_content 0 (highlights docAnnotations))"

subsection \<open>Well-formed annotation sets\<close>

definition in_bounds :: "js_string \<Rightarrow> annotation \<Rightarrow> bool" where
  \<comment> \<open>\<open>0 \<le> position_start \<le> position_end \<le> length(content)\<close>\<close>
  "in_bounds doc_content ann =
     (0 \<le> position_start ann \<and> position_start ann \<le> position_end ann
      \<and> position_end ann \<le> int (length doc_content))"

fun starts_after :: "int \<Rightarrow> annotation list \<Rightarrow> bool" where
  \<comment> \<open>No annotation of the list begins before the cursor, that is, before the one in
      front of it ended.\<close>
  "starts_after cursor [] = True"
| "starts_after cursor (ann # anns) =
     (cursor \<le> position_start ann \<and> starts_after (position_end ann) anns)"

definition non_overlapping :: "annotation list \<Rightarrow> bool" where
  "non_overlapping docAnnotations = starts_after 0 (highlights docAnnotations)"

definition range_of :: "annotation \<Rightarrow> int set" where
  \<comment> \<open>The half-open interval of an annotation.\<close>
  "range_of ann = {position_start ann ..< position_end ann}"

definition disjoint_ranges :: "annotation \<Rightarrow> annotation \<Rightarrow> bool" where
  "disjoint_ranges a b = (range_of a \<inter> range_of b = {})"

text \<open>
  The words of the specification for an offset clamped to the valid bounds
  \<open>[0, length(content)]\<close> and for the slice \<open>content[i:j]\<close>.
\<close>

definition spec_clamp :: "js_string \<Rightarrow> int \<Rightarrow> nat" where
  \<comment> \<open>Below zero gives zero, beyond the length gives the length.\<close>
  "spec_clamp doc_content i =
     (if i < 0 then 0 else if int (length doc_content) < i then length doc_content else nat i)"

definition content_slice :: "js_string \<Rightarrow> nat \<Rightarrow> nat \<Rightarrow> js_string" where
  "content_slice doc_content i j = take (j - i) (drop i doc_content)"

subsection \<open>Highlight colours\<close>

text \<open>
  \<^verbatim>\<open>colors[color] || colors.yellow\<close>, where \<^verbatim>\<open>colors\<close> is an object literal.
  Reading a property of an object literal finds its own properties first and then those
  it inherits from \<^verbatim>\<open>Object.prototype\<close>, which are functions (an object for
  \<^verbatim>\<open>__proto__\<close>), hence truthy; a name found in neither place reads as
  \<^verbatim>\<open>undefined\<close>.
\<close>

datatype js_value = JsString js_string | JsUndefined | JsInherited js_string

definition colors :: "(js_string \<times> js_string) list" where
  "colors =
     [(js ''yellow'', js ''#fef08a''),
      (js ''green'', js ''#bbf7d0''),
      (js ''blue'', js ''#bfdbfe''),
      (js ''pink'', js ''#fbcfe8''),
      (js ''purple'', js ''#e9d5ff'')]"

definition object_prototype_keys :: "js_string list" where
  "object_prototype_keys =
     [js ''constructor'', js ''hasOwnProperty'', js ''isPrototypeOf'',
      js ''propertyIsEnumerable'', js ''toLocaleString'', js ''toString'', js ''valueOf'',
      js ''__proto__'', js ''__defineGetter__'', js ''__defineSetter__'',
      js ''__lookupGetter__'', js ''__lookupSetter__'']"

definition get_property :: "(js_string \<times> js_string) list \<Rightarrow> js_string \<Rightarrow> js_value" where
  "get_property obj key =
     (case map_of obj key of
        Some v \<Rightarrow> JsString v
      | None \<Rightarrow> if key \<in> set object_prototype_keys then JsInherited key else JsUndefined)"

fun truthy :: "js_value \<Rightarrow> bool" where
  "truthy (JsString s) = (s \<noteq> [])"
| "truthy JsUndefined = False"
| "truthy (JsInherited k) = True"

definition getHighlightColor :: "js_string \<Rightarrow> js_value" where
  "getHighlightColor color_name =
     (if truthy (get_property colors color_name) then get_property colors color_name
      else get_property colors (js ''yellow''))"

definition color_argument :: "segment \<Rightarrow> js_string" where
  \<comment> \<open>The call site: \<^verbatim>\<open>segment.annotation?.color || 'yellow'\<close>.\<close>
  "color_argument seg =
     (case annotation_seg seg of
        None \<Rightarrow> js ''yellow''
      | Some ann \<Rightarrow> if color ann = [] then js ''yellow'' else color ann)"

subsection \<open>Translating a selection\<close>

text \<open>
  The handler reads the window's selection and the container element; here both are
  arguments. Of the selection it reads \<^verbatim>\<open>toString()\<close> and the start of its first
  range. The container is seen as its text nodes in document order, one for each element
  that \<open>render\<close> produced, and a boundary point is the index of a text node and an
  offset into it. \<open>None\<close> for the selection is \<^verbatim>\<open>null\<close>, \<open>None\<close> for the
  container is an element that \<^verbatim>\<open>getElementById\<close> does not find.
\<close>

record dom_range =
  startContainer :: nat
  startOffset :: nat
  endContainer :: nat
  endOffset :: nat

record selection =
  toString_sel :: js_string
  getRangeAt0 :: dom_range

definition text_nodes :: "rendered \<Rightarrow> js_string list" where
  "text_nodes r = map text_seg (segments_of r)"

definition text_before :: "js_string list \<Rightarrow> nat \<Rightarrow> nat \<Rightarrow> js_string" where
  \<comment> \<open>\<^verbatim>\<open>preCaretRange.toString()\<close>: the text from the beginning of the container to
      the boundary point.\<close>
  "text_before nodes i k =
     concat (take i nodes) @ (case drop i nodes of [] \<Rightarrow> [] | n # _ \<Rightarrow> take k n)"

definition handleTextSelection ::
  "viewer_state \<Rightarrow> js_string \<Rightarrow> selection option \<Rightarrow> js_string list option \<Rightarrow> viewer_state" where
  "handleTextSelection st doc_id sel container =
     (case sel of
        None \<Rightarrow> st
      | Some selection \<Rightarrow>
          if trim (toString_sel selection) = [] then st
          else
            (let range = getRangeAt0 selection;
                 text = toString_sel selection
             in case container of
                  None \<Rightarrow> st
                | Some nodes \<Rightarrow>
                    (let start_pos = int (length (text_before nodes (startContainer range) (startOffset range)));
                         end_pos = start_pos + int (length text)
                     in st\<lparr>selectedText :=
                             Some \<lparr>text_sel = text, docId = doc_id, start = start_pos, end_sel = end_pos\<rparr>,
                           showAnnotationForm := True\<rparr>)))"

text \<open>
  A user selection of the rendered characters \<open>s\<close> to \<open>e\<close>: both boundary points lie
  in text nodes of the container, \<open>s\<close> and \<open>e\<close> characters of text precede them, and
  the selection's string is the text between them.
\<close>

definition boundary_at :: "js_string list \<Rightarrow> nat \<Rightarrow> nat \<Rightarrow> nat \<Rightarrow> bool" where
  "boundary_at nodes i k pos =
     (i < length nodes \<and> k \<le> length (nodes ! i)
      \<and> pos = sum_list (map length (take i nodes)) + k)"

definition selects :: "js_string list \<Rightarrow> selection \<Rightarrow> nat \<Rightarrow> nat \<Rightarrow> bool" where
  "selects nodes sel s e =
     (boundary_at nodes (startContainer (getRangeAt0 sel)) (startOffset (getRangeAt0 sel)) s
      \<and> boundary_at nodes (endContainer (getRangeAt0 sel)) (endOffset (getRangeAt0 sel)) e
      \<and> toString_sel sel = take (e - s) (drop s (concat nodes)))"

subsection \<open>Example inputs\<close>

text \<open>An annotation with the given offsets and a document of twenty characters.\<close>

definition ann_at :: "int \<Rightarrow> int \<Rightarrow> annotation" where
  "ann_at s e =
     \<lparr>id_ann = [], user_id = [], document_id = [], content = [], highlighted_text = [],
      position_start = s, position_end = e, color = js ''yellow'', created_at = [],
      updated_at = []\<rparr>"

definition doc20 :: js_string where
  "doc20 = js ''abcdefghijklmnopqrst''"

text \<open>
  The state of a freshly mounted viewer, and a selection given by its string and the two
  boundary points of its range.
\<close>

definition initial_state :: viewer_state where
  "initial_state =
     \<lparr>annotations = Map.empty, selectedText = None, showAnnotationForm = False,
      isFullscreen = False\<rparr>"

definition select_range :: "js_string \<Rightarrow> nat \<Rightarrow> nat \<Rightarrow> nat \<Rightarrow> nat \<Rightarrow> selection" where
  "select_range t i k j l =
     \<lparr>toString_sel = t,
      getRangeAt0 = \<lparr>startContainer = i, startOffset = k, endContainer = j, endOffset = l\<rparr>\<rparr>"


section \<open>Properties of the string operations, the sort and the walk\<close>

lemma clamp_index_le: "clamp_index s i \<le> length s"
  by (simp add: clamp_index_def)

lemma clamp_index_mono: "a \<le> b \<Longrightarrow> clamp_index s a \<le> clamp_index s b"
  by (simp add: clamp_index_def)

lemma clamp_index_in: "0 \<le> i \<Longrightarrow> i \<le> int (length s) \<Longrightarrow> clamp_index s i = nat i"
  by (simp add: clamp_index_def)

lemma clamp_index_length: "clamp_index s (int (length s)) = length s"
  by (simp add: clamp_index_def)

lemma substring_to_le: "substring_to s a b \<le> length s"
  by (simp add: substring_to_def clamp_index_le)

lemma length_substring: "length (substring s a b) = substring_to s a b - substring_from s a b"
  using substring_to_le [of s a b] by (simp add: substring_def)

lemma substring_at_from:
  "take (length (substring s a b)) (drop (substring_from s a b) s) = substring s a b"
  by (simp add: length_substring) (simp add: substring_def)

lemma substring_in:
  "0 \<le> a \<Longrightarrow> a \<le> b \<Longrightarrow> b \<le> int (length s) \<Longrightarrow>
   substring s a b = take (nat b - nat a) (drop (nat a) s)"
  by (simp add: substring_def substring_from_def substring_to_def clamp_index_in)

lemma substring1_in:
  "0 \<le> a \<Longrightarrow> a \<le> int (length s) \<Longrightarrow> substring1 s a = drop (nat a) s"
  by (simp add: substring1_def substring_in)

lemma sublist_substring: "sublist (substring s a b) s"
  unfolding substring_def
  by (meson sublist_take sublist_drop sublist_order.order_trans)

lemma substring_from_ordered:
  "a \<le> b \<Longrightarrow> substring_from s a b = clamp_index s a"
  by (simp add: substring_from_def clamp_index_mono min_def)

lemma drop_split: "i \<le> j \<Longrightarrow> drop i xs = take (j - i) (drop i xs) @ drop j xs"
  by (metis append_take_drop_id drop_drop le_add_diff_inverse2)

lemma take_split: "i \<le> j \<Longrightarrow> take i xs @ take (j - i) (drop i xs) = take j xs"
  by (metis take_add le_add_diff_inverse)

lemma insert_sorted_insort:
  "insert_sorted compare_start x ys = insort_key position_start x ys"
  by (induction ys) (simp_all add: compare_start_def)

lemma highlights_sort_key: "highlights anns = sort_key position_start anns"
  unfolding highlights_def
  by (induction anns) (simp_all add: insert_sorted_insort)

lemma set_highlights: "set (highlights anns) = set anns"
  by (simp add: highlights_sort_key)

lemma sorted_highlights: "sorted (map position_start (highlights anns))"
  by (simp add: highlights_sort_key)

lemma sorted_wrt_insort_key:
  assumes "\<And>x y. P x y \<Longrightarrow> P y x"
  shows "sorted_wrt P (insort_key f x ys) \<longleftrightarrow> (\<forall>y\<in>set ys. P x y) \<and> sorted_wrt P ys"
  using assms by (induction ys) (auto simp: set_insort_key)

lemma sorted_wrt_sort_key:
  assumes "\<And>x y. P x y \<Longrightarrow> P y x"
  shows "sorted_wrt P (sort_key f xs) \<longleftrightarrow> sorted_wrt P xs"
  by (induction xs) (simp_all add: sorted_wrt_insort_key [OF assms])

lemma forEach_body_step:
  "forEach_body c (segs, li) a =
     (segs @ (if position_start a > li
              then [plain_segment (substring c li (position_start a))] else []) @
        [highlight_segment (substring c (position_start a) (position_end a)) a],
      position_end a)"
  by (simp add: forEach_body_def)

lemma foldl_forEach_body:
  "trailing c (foldl (forEach_body c) (segs, li) anns) = segs @ walk c li anns"
proof (induction anns arbitrary: segs li)
  case Nil
  show ?case by (simp add: trailing_def)
next
  case (Cons a anns)
  have "trailing c (foldl (forEach_body c) (segs, li) (a # anns)) =
        trailing c (foldl (forEach_body c) (forEach_body c (segs, li) a) anns)"
    by simp
  also have "\<dots> = (segs @ (if position_start a > li
              then [plain_segment (substring c li (position_start a))] else []) @
        [highlight_segment (substring c (position_start a) (position_end a)) a]) @
        walk c (position_end a) anns"
    unfolding forEach_body_step by (rule Cons.IH)
  also have "\<dots> = segs @ walk c li (a # anns)"
    by simp
  finally show ?case .
qed

lemma build_segments_walk: "build_segments c anns = walk c 0 (highlights anns)"
  by (simp add: build_segments_def foldl_forEach_body)

lemma filter_highlighted_walk:
  "filter highlighted (walk c li anns) =
     map (\<lambda>a. highlight_segment (substring c (position_start a) (position_end a)) a) anns"
  by (induction anns arbitrary: li) (simp_all add: plain_segment_def highlight_segment_def)

lemma walk_text:
  "0 \<le> li \<Longrightarrow> li \<le> int (length c) \<Longrightarrow> \<forall>a\<in>set anns. in_bounds c a \<Longrightarrow>
   starts_after li anns \<Longrightarrow>
   concat (map text_seg (walk c li anns)) = drop (nat li) c"
proof (induction anns arbitrary: li)
  case Nil
  then show ?case
    by (simp add: plain_segment_def substring1_in)
next
  case (Cons a anns)
  let ?s = "position_start a" and ?e = "position_end a"
  from Cons.prems have b: "0 \<le> ?s" "?s \<le> ?e" "?e \<le> int (length c)" and le: "li \<le> ?s"
    by (simp_all add: in_bounds_def)
  have rest: "concat (map text_seg (walk c ?e anns)) = drop (nat ?e) c"
    using Cons.prems b by (intro Cons.IH) simp_all
  have plain: "concat (map text_seg (if ?s > li then [plain_segment (substring c li ?s)] else []))
      = take (nat ?s - nat li) (drop (nat li) c)"
    using Cons.prems(1) le b by (simp add: plain_segment_def substring_in)
  have hl: "text_seg (highlight_segment (substring c ?s ?e) a) = take (nat ?e - nat ?s) (drop (nat ?s) c)"
    using b by (simp add: highlight_segment_def substring_in)
  have split1: "drop (nat li) c = take (nat ?s - nat li) (drop (nat li) c) @ drop (nat ?s) c"
    using le by (intro drop_split) simp
  have split2: "drop (nat ?s) c = take (nat ?e - nat ?s) (drop (nat ?s) c) @ drop (nat ?e) c"
    using b by (intro drop_split) simp
  have "concat (map text_seg (walk c li (a # anns))) =
      take (nat ?s - nat li) (drop (nat li) c) @ take (nat ?e - nat ?s) (drop (nat ?s) c) @ drop (nat ?e) c"
    using plain hl rest by simp
  then show ?case using split1 split2 by simp
qed

lemma walk_sublist: "seg \<in> set (walk c li anns) \<Longrightarrow> sublist (text_seg seg) c"
  by (induction anns arbitrary: li)
     (auto simp: plain_segment_def highlight_segment_def substring1_def sublist_substring
       split: if_splits)

lemma clamp_index_spec: "clamp_index c i = spec_clamp c i"
  by (simp add: clamp_index_def spec_clamp_def)

lemma spec_clamp_le: "spec_clamp c i \<le> length c"
  unfolding spec_clamp_def by (cases "i < 0"; cases "int (length c) < i") simp_all

lemma substring_slice:
  "substring c s e =
     content_slice c (min (spec_clamp c s) (spec_clamp c e)) (max (spec_clamp c s) (spec_clamp c e))"
  by (simp add: substring_def substring_from_def substring_to_def clamp_index_spec content_slice_def)

lemma spec_clamp_mono: "s \<le> e \<Longrightarrow> spec_clamp c s \<le> spec_clamp c e"
  using clamp_index_mono [of s e c] by (simp add: clamp_index_spec)

lemma substring_slice_ordered:
  "s \<le> e \<Longrightarrow> substring c s e = content_slice c (spec_clamp c s) (spec_clamp c e)"
  using spec_clamp_mono [of s e c] by (simp add: substring_slice min_def max_def)

lemma length_content_slice: "i \<le> j \<Longrightarrow> j \<le> length c \<Longrightarrow> length (content_slice c i j) = j - i"
  by (simp add: content_slice_def)

lemma walk_highlight_mem:
  "a \<in> set anns \<Longrightarrow>
   highlight_segment (substring c (position_start a) (position_end a)) a \<in> set (walk c li anns)"
  by (induction anns arbitrary: li) auto

lemma render_highlight_mem:
  assumes "a \<in> set docAnnotations"
  shows "highlight_segment (substring c (position_start a) (position_end a)) a
           \<in> set (segments_of (render c docAnnotations))"
proof -
  from assms have ne: "docAnnotations \<noteq> []" by auto
  from assms have "a \<in> set (highlights docAnnotations)" by (simp add: set_highlights)
  then have "highlight_segment (substring c (position_start a) (position_end a)) a
      \<in> set (walk c 0 (highlights docAnnotations))"
    by (rule walk_highlight_mem)
  with ne show ?thesis by (simp add: render_def segments_of_def build_segments_walk)
qed

lemma render_segment_sublist:
  assumes "seg \<in> set (segments_of (render c docAnnotations))"
  shows "sublist (text_seg seg) c"
proof (cases "docAnnotations = []")
  case True
  with assms show ?thesis
    by (simp add: render_def segments_of_def plain_segment_def)
next
  case False
  with assms have "seg \<in> set (walk c 0 (highlights docAnnotations))"
    by (simp add: render_def segments_of_def build_segments_walk)
  then show ?thesis by (rule walk_sublist)
qed

lemma walk_starts_sorted:
  "\<forall>a\<in>set anns. position_start a \<le> position_end a \<Longrightarrow>
   sorted (map position_start anns) \<Longrightarrow> \<forall>a\<in>set anns. m \<le> position_start a \<Longrightarrow> m \<le> li \<Longrightarrow>
   sorted (walk_starts c li anns) \<and> (\<forall>x\<in>set (walk_starts c li anns). clamp_index c m \<le> x)"
proof (induction anns arbitrary: li m)
  case Nil
  then show ?case
    by (simp add: substring_from_def clamp_index_length clamp_index_le clamp_index_mono)
next
  case (Cons a anns)
  let ?s = "position_start a" and ?e = "position_end a"
  from Cons.prems have se: "?s \<le> ?e" and ms: "m \<le> ?s" by simp_all
  have rest: "sorted (walk_starts c ?e anns) \<and> (\<forall>x\<in>set (walk_starts c ?e anns). clamp_index c ?s \<le> x)"
    using Cons.prems se by (intro Cons.IH) simp_all
  have hl: "substring_from c ?s ?e = clamp_index c ?s"
    using se by (rule substring_from_ordered)
  have m_s: "clamp_index c m \<le> clamp_index c ?s"
    using ms by (rule clamp_index_mono)
  have rest_m: "\<forall>x\<in>set (walk_starts c ?e anns). clamp_index c m \<le> x"
    using rest m_s by (meson order_trans)
  show ?case
  proof (cases "?s > li")
    case True
    then have pl: "substring_from c li ?s = clamp_index c li"
      by (simp add: substring_from_ordered)
    have li_s: "clamp_index c li \<le> clamp_index c ?s" and m_li: "clamp_index c m \<le> clamp_index c li"
      using True Cons.prems(4) by (simp_all add: clamp_index_mono)
    have rest_li: "\<forall>x\<in>set (walk_starts c ?e anns). clamp_index c li \<le> x"
      using rest li_s by (meson order_trans)
    have eq: "walk_starts c li (a # anns) =
        clamp_index c li # clamp_index c ?s # walk_starts c ?e anns"
      using True by (simp add: hl pl)
    show ?thesis
      unfolding eq using rest rest_m rest_li li_s m_li m_s by simp
  next
    case False
    then have eq: "walk_starts c li (a # anns) = clamp_index c ?s # walk_starts c ?e anns"
      by (simp add: hl)
    show ?thesis
      unfolding eq using rest rest_m m_s by simp
  qed
qed

lemma walk_starts_texts:
  "list_all2 (\<lambda>st seg. text_seg seg = take (length (text_seg seg)) (drop st c))
     (walk_starts c li anns) (walk c li anns)"
  by (induction anns arbitrary: li)
     (simp_all add: plain_segment_def highlight_segment_def substring1_def substring_at_from)

lemma rendered_text_content:
  assumes "\<forall>a\<in>set docAnnotations. in_bounds doc_content a"
    and "non_overlapping docAnnotations"
  shows "rendered_text (render doc_content docAnnotations) = doc_content"
proof (cases "docAnnotations = []")
  case True
  then show ?thesis
    by (simp add: rendered_text_def render_def segments_of_def plain_segment_def)
next
  case False
  have "concat (map text_seg (walk doc_content 0 (highlights docAnnotations))) = drop (nat 0) doc_content"
    using assms by (intro walk_text) (simp_all add: set_highlights non_overlapping_def)
  with False show ?thesis
    by (simp add: rendered_text_def render_def segments_of_def build_segments_walk)
qed

lemma disjoint_ranges_sym: "disjoint_ranges a b \<Longrightarrow> disjoint_ranges b a"
  by (auto simp: disjoint_ranges_def)

lemma disjoint_ranges_end_le_start:
  assumes "disjoint_ranges a b" and "position_start a \<le> position_start b"
    and "position_start b < position_end b"
  shows "position_end a \<le> position_start b"
proof (rule ccontr)
  assume "\<not> position_end a \<le> position_start b"
  with assms(2,3) have "position_start b \<in> range_of a \<inter> range_of b"
    by (simp add: range_of_def)
  with assms(1) show False by (simp add: disjoint_ranges_def)
qed

lemma starts_after_disjoint:
  "sorted (map position_start anns) \<Longrightarrow> sorted_wrt disjoint_ranges anns \<Longrightarrow>
   \<forall>a\<in>set anns. position_start a < position_end a \<Longrightarrow>
   \<forall>a\<in>set anns. cursor \<le> position_start a \<Longrightarrow> starts_after cursor anns"
proof (induction anns arbitrary: cursor)
  case Nil
  show ?case by simp
next
  case (Cons a anns)
  have "\<forall>b\<in>set anns. position_end a \<le> position_start b"
    using Cons.prems by (auto intro: disjoint_ranges_end_le_start)
  then have "starts_after (position_end a) anns"
    using Cons.prems by (intro Cons.IH) simp_all
  with Cons.prems(4) show ?case by simp
qed

lemma disjoint_nonempty_non_overlapping:
  assumes "sorted_wrt disjoint_ranges docAnnotations"
    and "\<forall>a\<in>set docAnnotations. 0 \<le> position_start a \<and> position_start a < position_end a"
  shows "non_overlapping docAnnotations"
  unfolding non_overlapping_def highlights_sort_key
  using assms
  by (intro starts_after_disjoint)
     (simp_all add: sorted_wrt_sort_key [of disjoint_ranges, OF disjoint_ranges_sym])

lemma dropWhile_all_iff: "(\<forall>x\<in>set (dropWhile P xs). P x) \<longleftrightarrow> dropWhile P xs = []"
proof
  assume all: "\<forall>x\<in>set (dropWhile P xs). P x"
  show "dropWhile P xs = []"
  proof (rule ccontr)
    assume ne: "dropWhile P xs \<noteq> []"
    then have "\<not> P (hd (dropWhile P xs))" by (rule hd_dropWhile)
    moreover have "hd (dropWhile P xs) \<in> set (dropWhile P xs)" using ne by (rule hd_in_set)
    ultimately show False using all by blast
  qed
next
  assume empty: "dropWhile P xs = []"
  show "\<forall>x\<in>set (dropWhile P xs). P x" unfolding empty by simp
qed

lemma trim_Nil_iff: "trim s = [] \<longleftrightarrow> list_all is_js_whitespace s"
proof -
  have "trim s = [] \<longleftrightarrow> (\<forall>x\<in>set (dropWhile is_js_whitespace s). is_js_whitespace x)"
    by (simp add: trim_def dropWhile_eq_Nil_conv)
  also have "\<dots> \<longleftrightarrow> dropWhile is_js_whitespace s = []"
    by (rule dropWhile_all_iff)
  also have "\<dots> \<longleftrightarrow> list_all is_js_whitespace s"
    by (simp add: dropWhile_eq_Nil_conv list_all_iff)
  finally show ?thesis .
qed

lemma length_text_before:
  assumes "boundary_at nodes i k pos"
  shows "length (text_before nodes i k) = pos"
proof -
  from assms have i: "i < length nodes" and k: "k \<le> length (nodes ! i)"
    and pos: "pos = sum_list (map length (take i nodes)) + k"
    by (simp_all add: boundary_at_def)
  have "drop i nodes = nodes ! i # drop (Suc i) nodes"
    using i by (simp add: Cons_nth_drop_Suc)
  then show ?thesis
    using k pos by (simp add: text_before_def length_concat)
qed

lemma getHighlightColor_known:
  "getHighlightColor (js ''yellow'') = JsString (js ''#fef08a'')"
  "getHighlightColor (js ''green'') = JsString (js ''#bbf7d0'')"
  "getHighlightColor (js ''blue'') = JsString (js ''#bfdbfe'')"
  "getHighlightColor (js ''pink'') = JsString (js ''#fbcfe8'')"
  "getHighlightColor (js ''purple'') = JsString (js ''#e9d5ff'')"
  by (simp_all add: getHighlightColor_def get_property_def colors_def js_def)

lemma getHighlightColor_default:
  assumes "map_of colors color_name = None" and "color_name \<notin> set object_prototype_keys"
  shows "getHighlightColor color_name = JsString (js ''#fef08a'')"
proof -
  have "get_property colors color_name = JsUndefined"
    using assms by (simp add: get_property_def)
  moreover have "get_property colors (js ''yellow'') = JsString (js ''#fef08a'')"
    by (simp add: get_property_def colors_def)
  ultimately show ?thesis by (simp add: getHighlightColor_def)
qed

lemma getHighlightColor_missing:
  assumes "annotation_seg seg = None \<or> (\<exists>ann. annotation_seg seg = Some ann \<and> color ann = [])"
  shows "getHighlightColor (color_argument seg) = JsString (js ''#fef08a'')"
  using assms getHighlightColor_known(1) by (auto simp: color_argument_def)

lemma ann_at_simps: "position_start (ann_at s e) = s" "position_end (ann_at s e) = e"
  by (simp_all add: ann_at_def)

lemma length_doc20: "length doc20 = 20"
  by (simp add: doc20_def js_def)

lemmas render_eval =
  render_def build_segments_walk highlights_def compare_start_def ann_at_simps
  segments_of_def rendered_text_def plain_segment_def highlight_segment_def
  substring_def substring1_def substring_from_def substring_to_def clamp_index_def

section \<open>The claims\<close>

text \<open>
  Claim C1, amended. The walk does not clamp a highlighted slice to the cursor and sets
  the cursor to \<open>position_end\<close> whatever it was before. For two annotations \<open>a\<close> and
  \<open>b\<close> within the content, \<open>b\<close> beginning inside \<open>a\<close>, the two highlighted slices
  are \<open>content[a.start:a.end]\<close> and \<open>content[b.start:b.end]\<close>, and the output
  concatenates to \<open>content[0:a.end]\<close> followed by \<open>content[b.start:]\<close>: the characters
  from \<open>b.start\<close> to \<open>a.end\<close> appear twice.
\<close>
theorem overlap_rendered_twice:
  assumes "0 \<le> position_start a" and "position_start a \<le> position_start b"
    and "position_start b < position_end a" and "position_start b \<le> position_end b"
    and "position_end a \<le> int (length doc_content)"
    and "position_end b \<le> int (length doc_content)"
  shows "map text_seg (filter highlighted (segments_of (render doc_content [a, b]))) =
           [take (nat (position_end a) - nat (position_start a)) (drop (nat (position_start a)) doc_content),
            take (nat (position_end b) - nat (position_start b)) (drop (nat (position_start b)) doc_content)]
         \<and> rendered_text (render doc_content [a, b]) =
           take (nat (position_end a)) doc_content @ drop (nat (position_start b)) doc_content"
proof -
  let ?sa = "position_start a" and ?ea = "position_end a"
  let ?sb = "position_start b" and ?eb = "position_end b"
  let ?c = doc_content
  have hs: "highlights [a, b] = [a, b]"
    using assms(2) by (simp add: highlights_def compare_start_def)
  have sa: "substring ?c ?sa ?ea = take (nat ?ea - nat ?sa) (drop (nat ?sa) ?c)"
    using assms by (intro substring_in) simp_all
  have sb: "substring ?c ?sb ?eb = take (nat ?eb - nat ?sb) (drop (nat ?sb) ?c)"
    using assms by (intro substring_in) simp_all
  have p0: "concat (map text_seg (if ?sa > 0 then [plain_segment (substring ?c 0 ?sa)] else []))
      = take (nat ?sa) ?c"
    using assms by (simp add: plain_segment_def substring_in)
  have tr: "concat (map text_seg (walk ?c ?eb [])) = drop (nat ?eb) ?c"
    using assms by (simp add: plain_segment_def substring1_in)
  have segs: "segments_of (render ?c [a, b]) =
      (if ?sa > 0 then [plain_segment (substring ?c 0 ?sa)] else []) @
      highlight_segment (substring ?c ?sa ?ea) a #
      highlight_segment (substring ?c ?sb ?eb) b # walk ?c ?eb []"
    using assms(3) by (simp add: render_def segments_of_def build_segments_walk hs)
  have e0: "rendered_text (render ?c [a, b]) =
      (take (nat ?sa) ?c @ take (nat ?ea - nat ?sa) (drop (nat ?sa) ?c)) @
      (take (nat ?eb - nat ?sb) (drop (nat ?sb) ?c) @ drop (nat ?eb) ?c)"
    unfolding rendered_text_def segs using p0 tr
    by (simp add: highlight_segment_def sa sb)
  have e1: "take (nat ?sa) ?c @ take (nat ?ea - nat ?sa) (drop (nat ?sa) ?c) = take (nat ?ea) ?c"
    using assms by (intro take_split) simp
  have e2: "take (nat ?eb - nat ?sb) (drop (nat ?sb) ?c) @ drop (nat ?eb) ?c = drop (nat ?sb) ?c"
    using assms drop_split [of "nat ?sb" "nat ?eb" "?c"] by simp
  have t: "rendered_text (render ?c [a, b]) = take (nat ?ea) ?c @ drop (nat ?sb) ?c"
    unfolding e0 e1 e2 by (rule refl)
  have "map text_seg (filter highlighted (segments_of (render ?c [a, b]))) =
      [substring ?c ?sa ?ea, substring ?c ?sb ?eb]"
    unfolding segs by (simp add: filter_highlighted_walk plain_segment_def highlight_segment_def)
  with t sa sb show ?thesis by simp
qed

theorem overlap_rendered_twice_witness:
  "0 \<le> position_start (ann_at 0 10)
   \<and> position_start (ann_at 0 10) \<le> position_start (ann_at 5 15)
   \<and> position_start (ann_at 5 15) < position_end (ann_at 0 10)
   \<and> position_start (ann_at 5 15) \<le> position_end (ann_at 5 15)
   \<and> position_end (ann_at 0 10) \<le> int (length doc20)
   \<and> position_end (ann_at 5 15) \<le> int (length doc20)
   \<and> map text_seg (filter highlighted (segments_of (render doc20 [ann_at 0 10, ann_at 5 15]))) =
       [js ''abcdefghij'', js ''fghijklmno'']
   \<and> rendered_text (render doc20 [ann_at 0 10, ann_at 5 15]) =
       js ''abcdefghij'' @ js ''fghijklmnopqrst''"
  using overlap_rendered_twice [of "ann_at 0 10" "ann_at 5 15" doc20]
  by (simp add: ann_at_simps length_doc20) (simp add: doc20_def js_def)

text \<open>
  The ranges \<open>[0,10)\<close> and \<open>[5,15)\<close> on twenty characters: the second highlighted
  slice starts at 5, not at the cursor 10, and the characters \<open>fghij\<close> come twice.
\<close>
theorem overlap_counterexample:
  "map text_seg (segments_of (render doc20 [ann_at 0 10, ann_at 5 15])) =
     [js ''abcdefghij'', js ''fghijklmno'', js ''pqrst'']
   \<and> js ''fghijklmno'' \<noteq> substring doc20 (max 5 10) 15
   \<and> rendered_text (render doc20 [ann_at 0 10, ann_at 5 15]) \<noteq> doc20"
  by (simp add: render_eval length_doc20) (simp add: doc20_def js_def)

text \<open>
  Claim C2, amended. When every range satisfies
  \<open>0 \<le> position_start \<le> position_end \<le> length(content)\<close> and, in start order, no
  annotation begins before the one in front of it ended, the texts of the segments
  concatenate to the content. Ranges that are pairwise disjoint and all non-empty are
  such a set (\<open>disjoint_nonempty_non_overlapping\<close>).
\<close>
theorem render_covers_content:
  assumes "\<forall>a\<in>set docAnnotations. in_bounds doc_content a"
    and "non_overlapping docAnnotations"
  shows "rendered_text (render doc_content docAnnotations) = doc_content"
  using assms by (rule rendered_text_content)

theorem render_covers_content_witness:
  "list_all (in_bounds doc20) [ann_at 12 20, ann_at 0 5, ann_at 5 5, ann_at 5 9]
   \<and> non_overlapping [ann_at 12 20, ann_at 0 5, ann_at 5 5, ann_at 5 9]
   \<and> rendered_text (render doc20 [ann_at 12 20, ann_at 0 5, ann_at 5 5, ann_at 5 9]) = doc20"
  using render_covers_content [of "[ann_at 12 20, ann_at 0 5, ann_at 5 5, ann_at 5 9]" doc20]
  by (simp add: in_bounds_def non_overlapping_def highlights_def compare_start_def ann_at_simps
      length_doc20)

text \<open>
  A range of length zero inside another range is disjoint from it as a set of positions,
  yet it begins before the other one ended: the cursor goes back to it and the text after
  it is emitted a second time. The ranges \<open>[0,10)\<close> and \<open>[5,5)\<close> are within the
  content and disjoint, and the output is not the content.
\<close>
theorem render_covers_content_counterexample:
  "list_all (in_bounds doc20) [ann_at 0 10, ann_at 5 5]
   \<and> disjoint_ranges (ann_at 0 10) (ann_at 5 5)
   \<and> rendered_text (render doc20 [ann_at 0 10, ann_at 5 5]) =
       js ''abcdefghij'' @ js ''fghijklmnopqrst''
   \<and> rendered_text (render doc20 [ann_at 0 10, ann_at 5 5]) \<noteq> doc20"
  by (simp add: in_bounds_def disjoint_ranges_def range_of_def render_eval length_doc20)
     (simp add: doc20_def js_def)

text \<open>
  Claim C3, amended. Let the annotations be within the content and such that, in start
  order, none begins before the one in front of it ended, and let \<open>s < e \<le> length(content)\<close>
  with \<open>content[s:e]\<close> not made of white space only. Then for a selection of the
  rendered characters \<open>s\<close> to \<open>e\<close>, whatever segments its boundary points lie in, the
  handler stores the text \<open>content[s:e]\<close> with start \<open>s\<close> and end \<open>e\<close> and opens the
  annotation form.
\<close>
theorem selection_round_trip:
  assumes "\<forall>a\<in>set docAnnotations. in_bounds doc_content a"
    and "non_overlapping docAnnotations"
    and "s < e" and "e \<le> length doc_content"
    and "selects (text_nodes (render doc_content docAnnotations)) sel s e"
    and "\<not> list_all is_js_whitespace (take (e - s) (drop s doc_content))"
  shows "handleTextSelection st doc_id (Some sel)
           (Some (text_nodes (render doc_content docAnnotations))) =
         st\<lparr>selectedText :=
              Some \<lparr>text_sel = take (e - s) (drop s doc_content), docId = doc_id,
                    start = int s, end_sel = int e\<rparr>,
            showAnnotationForm := True\<rparr>"
proof -
  let ?nodes = "text_nodes (render doc_content docAnnotations)"
  have whole: "concat ?nodes = doc_content"
    using rendered_text_content [OF assms(1,2)] by (simp add: rendered_text_def text_nodes_def)
  have sel_text: "toString_sel sel = take (e - s) (drop s doc_content)"
    using assms(5) whole by (simp add: selects_def)
  have len: "length (toString_sel sel) = e - s"
    using assms(3,4) by (simp add: sel_text)
  have before: "length (text_before ?nodes (startContainer (getRangeAt0 sel))
      (startOffset (getRangeAt0 sel))) = s"
    using assms(5) by (intro length_text_before) (simp add: selects_def)
  have nonempty: "trim (toString_sel sel) \<noteq> []"
    using assms(6) by (simp add: trim_Nil_iff sel_text)
  have e: "int s + int (e - s) = int e"
    using assms(3) by simp
  show ?thesis
    using nonempty by (simp add: handleTextSelection_def before len e) (simp add: sel_text)
qed

theorem selection_round_trip_witness:
  "list_all (in_bounds doc20) [ann_at 0 5, ann_at 8 12]
   \<and> non_overlapping [ann_at 0 5, ann_at 8 12]
   \<and> (3::nat) < 10 \<and> 10 \<le> length doc20
   \<and> selects (text_nodes (render doc20 [ann_at 0 5, ann_at 8 12]))
         (select_range (js ''defghij'') 0 3 2 2) 3 10
   \<and> handleTextSelection initial_state (js ''d1'') (Some (select_range (js ''defghij'') 0 3 2 2))
         (Some (text_nodes (render doc20 [ann_at 0 5, ann_at 8 12]))) =
       initial_state\<lparr>selectedText :=
           Some \<lparr>text_sel = js ''defghij'', docId = js ''d1'', start = 3, end_sel = 10\<rparr>,
         showAnnotationForm := True\<rparr>"
proof -
  have nodes: "text_nodes (render doc20 [ann_at 0 5, ann_at 8 12]) =
      [js ''abcde'', js ''fgh'', js ''ijkl'', js ''mnopqrst'']"
    by (simp add: text_nodes_def render_eval length_doc20) (simp add: doc20_def js_def)
  have b: "list_all (in_bounds doc20) [ann_at 0 5, ann_at 8 12]"
    by (simp add: in_bounds_def ann_at_simps length_doc20)
  have n: "non_overlapping [ann_at 0 5, ann_at 8 12]"
    by (simp add: non_overlapping_def highlights_def compare_start_def ann_at_simps)
  have sel: "selects (text_nodes (render doc20 [ann_at 0 5, ann_at 8 12]))
         (select_range (js ''defghij'') 0 3 2 2) 3 10"
    unfolding nodes by (simp add: selects_def boundary_at_def select_range_def js_def)
  have t: "take 7 (drop 3 doc20) = js ''defghij''"
    by (simp add: doc20_def js_def)
  have w: "\<not> list_all is_js_whitespace (take (10 - 3) (drop 3 doc20))"
    by (simp add: t) (simp add: js_def is_js_whitespace_def)
  show ?thesis
    using selection_round_trip [of "[ann_at 0 5, ann_at 8 12]" doc20 3 10
        "select_range (js ''defghij'') 0 3 2 2" initial_state "js ''d1''"] b n sel w
    by (simp add: list_all_iff length_doc20 t)
qed

text \<open>
  Two selections for which the offsets of the document do not come back. In \<open>a b\<close>
  without annotations the selection of the character at offset 1 is a blank: the handler
  returns before it computes anything and nothing is stored. With the ranges \<open>[0,10)\<close>
  and \<open>[5,15)\<close> the rendered text repeats \<open>fghij\<close>, so the selection of \<open>pq\<close>, which
  is \<open>content[15:17]\<close>, is stored with the offsets 20 and 22.
\<close>
theorem selection_round_trip_counterexample:
  "selects (text_nodes (render (js ''a b'') [])) (select_range (js '' '') 0 1 0 2) 1 2
   \<and> selectedText (handleTextSelection initial_state (js ''d1'')
        (Some (select_range (js '' '') 0 1 0 2)) (Some (text_nodes (render (js ''a b'') [])))) = None
   \<and> substring doc20 15 17 = js ''pq''
   \<and> text_nodes (render doc20 [ann_at 0 10, ann_at 5 15]) =
        [js ''abcdefghij'', js ''fghijklmno'', js ''pqrst'']
   \<and> selectedText (handleTextSelection initial_state (js ''d1'')
        (Some (select_range (js ''pq'') 2 0 2 2))
        (Some (text_nodes (render doc20 [ann_at 0 10, ann_at 5 15])))) =
      Some \<lparr>text_sel = js ''pq'', docId = js ''d1'', start = 20, end_sel = 22\<rparr>"
proof -
  have nodes: "text_nodes (render doc20 [ann_at 0 10, ann_at 5 15]) =
      [js ''abcdefghij'', js ''fghijklmno'', js ''pqrst'']"
    by (simp add: text_nodes_def render_eval length_doc20) (simp add: doc20_def js_def)
  have nodes0: "text_nodes (render (js ''a b'') []) = [js ''a b'']"
    by (simp add: text_nodes_def render_def segments_of_def plain_segment_def)
  have c1: "selects [js ''a b''] (select_range (js '' '') 0 1 0 2) 1 2"
    by (simp add: selects_def boundary_at_def select_range_def js_def)
  have c2: "selectedText (handleTextSelection initial_state (js ''d1'')
        (Some (select_range (js '' '') 0 1 0 2)) (Some [js ''a b''])) = None"
    by (simp add: handleTextSelection_def select_range_def trim_def js_def is_js_whitespace_def
        initial_state_def)
  have c3: "substring doc20 15 17 = js ''pq''"
    by (simp add: substring_def substring_from_def substring_to_def clamp_index_def length_doc20)
       (simp add: doc20_def js_def)
  have c4: "selectedText (handleTextSelection initial_state (js ''d1'')
        (Some (select_range (js ''pq'') 2 0 2 2))
        (Some [js ''abcdefghij'', js ''fghijklmno'', js ''pqrst''])) =
      Some \<lparr>text_sel = js ''pq'', docId = js ''d1'', start = 20, end_sel = 22\<rparr>"
    by (simp add: handleTextSelection_def select_range_def trim_def js_def is_js_whitespace_def
        initial_state_def text_before_def)
  show ?thesis
    unfolding nodes nodes0 using c1 c2 c3 c4 by simp
qed

text \<open>
  Claim C4, amended. For every content and every list of annotations, each with
  \<open>position_start \<le> position_end\<close> as in the data model, overlapping or not and
  whatever their bounds, the segments are emitted in non-decreasing order of the offset
  at which their slice begins in the content. \<open>segment_starts\<close> lists these offsets,
  the places where \<^verbatim>\<open>substring\<close> cut each segment: the text of each segment is the
  content read from its offset.
\<close>
theorem segments_in_position_order:
  assumes "\<forall>a\<in>set docAnnotations. position_start a \<le> position_end a"
  shows "sorted (segment_starts doc_content docAnnotations)
         \<and> list_all2 (\<lambda>st seg. text_seg seg = take (length (text_seg seg)) (drop st doc_content))
             (segment_starts doc_content docAnnotations)
             (segments_of (render doc_content docAnnotations))"
proof (cases "docAnnotations = []")
  case True
  then show ?thesis
    by (simp add: segment_starts_def render_def segments_of_def plain_segment_def)
next
  case False
  let ?hs = "highlights docAnnotations"
  have "\<forall>a\<in>set ?hs. position_start a \<le> position_end a"
    using assms by (simp add: set_highlights)
  moreover obtain m where "\<forall>a\<in>set ?hs. m \<le> position_start a" "m \<le> 0"
  proof
    show "\<forall>a\<in>set ?hs. min 0 (Min (position_start ` set ?hs)) \<le> position_start a"
      by (simp add: min.coboundedI2)
    show "min 0 (Min (position_start ` set ?hs)) \<le> 0" by simp
  qed
  ultimately have "sorted (walk_starts doc_content 0 ?hs)"
    using walk_starts_sorted [of ?hs m 0 doc_content] sorted_highlights by blast
  with False show ?thesis
    by (simp add: segment_starts_def render_def segments_of_def build_segments_walk walk_starts_texts)
qed

theorem segments_in_position_order_witness:
  "list_all (\<lambda>a. position_start a \<le> position_end a) [ann_at 5 15, ann_at 0 10, ann_at 17 30]
   \<and> segment_starts doc20 [ann_at 5 15, ann_at 0 10, ann_at 17 30] = [0, 5, 15, 17]
   \<and> map text_seg (segments_of (render doc20 [ann_at 5 15, ann_at 0 10, ann_at 17 30])) =
        [js ''abcdefghij'', js ''fghijklmno'', js ''pq'', js ''rst'']
   \<and> sorted (segment_starts doc20 [ann_at 5 15, ann_at 0 10, ann_at 17 30])"
  using segments_in_position_order [of "[ann_at 5 15, ann_at 0 10, ann_at 17 30]" doc20]
  by (simp add: segment_starts_def render_eval length_doc20) (simp add: doc20_def js_def)

text \<open>
  Rows with the end before the start, which the storage layer admits: \<^verbatim>\<open>substring\<close>
  swaps its arguments and the cursor goes back to the end. For the offsets \<open>(5,2)\<close> and
  \<open>(5,0)\<close> the slices begin at 0, 2, 2, 0 and 0, which is not a non-decreasing order.
\<close>
theorem segments_in_position_order_counterexample:
  "segment_starts doc20 [ann_at 5 2, ann_at 5 0] = [0, 2, 2, 0, 0]
   \<and> map text_seg (segments_of (render doc20 [ann_at 5 2, ann_at 5 0])) =
        [js ''abcde'', js ''cde'', js ''cde'', js ''abcde'', doc20]
   \<and> \<not> sorted (segment_starts doc20 [ann_at 5 2, ann_at 5 0])"
  by (simp add: segment_starts_def render_eval length_doc20) (simp add: doc20_def js_def)

text \<open>
  Claim C5. Whatever the offsets of an annotation of the list are, the output has the
  highlighted segment of this annotation, and its text is the slice of the content
  between the two offsets clamped to \<open>[0, length(content)]\<close>, from the smaller to the
  larger: \<open>content[clamp(start):clamp(end)]\<close> when the start is not after the end.
  Its length is the difference of the clamped offsets, at most the length of the content.
  Every segment of the output, highlighted or not, is a contiguous piece of the content.
  \<^verbatim>\<open>substring\<close> never throws and nothing else in the function can throw, so the
  model has no error result and the segments always exist.
\<close>
theorem out_of_range_offsets_clamped:
  assumes "a \<in> set docAnnotations"
  shows "\<lparr>text_seg =
            content_slice doc_content
              (min (spec_clamp doc_content (position_start a)) (spec_clamp doc_content (position_end a)))
              (max (spec_clamp doc_content (position_start a)) (spec_clamp doc_content (position_end a))),
          highlighted = True, annotation_seg = Some a\<rparr>
           \<in> set (segments_of (render doc_content docAnnotations))
         \<and> (position_start a \<le> position_end a \<longrightarrow>
              \<lparr>text_seg =
                 content_slice doc_content (spec_clamp doc_content (position_start a))
                   (spec_clamp doc_content (position_end a)),
               highlighted = True, annotation_seg = Some a\<rparr>
                \<in> set (segments_of (render doc_content docAnnotations)))
         \<and> length (content_slice doc_content
              (min (spec_clamp doc_content (position_start a)) (spec_clamp doc_content (position_end a)))
              (max (spec_clamp doc_content (position_start a)) (spec_clamp doc_content (position_end a))))
             = max (spec_clamp doc_content (position_start a)) (spec_clamp doc_content (position_end a))
               - min (spec_clamp doc_content (position_start a)) (spec_clamp doc_content (position_end a))
         \<and> max (spec_clamp doc_content (position_start a)) (spec_clamp doc_content (position_end a))
             \<le> length doc_content
         \<and> (\<forall>seg\<in>set (segments_of (render doc_content docAnnotations)).
               sublist (text_seg seg) doc_content \<and> length (text_seg seg) \<le> length doc_content)"
proof -
  let ?s = "position_start a" and ?e = "position_end a"
  let ?lo = "min (spec_clamp doc_content ?s) (spec_clamp doc_content ?e)"
  let ?hi = "max (spec_clamp doc_content ?s) (spec_clamp doc_content ?e)"
  have mem: "highlight_segment (substring doc_content ?s ?e) a
      \<in> set (segments_of (render doc_content docAnnotations))"
    using assms by (rule render_highlight_mem)
  have g1: "\<lparr>text_seg = content_slice doc_content ?lo ?hi, highlighted = True, annotation_seg = Some a\<rparr>
      \<in> set (segments_of (render doc_content docAnnotations))"
    using mem by (simp add: highlight_segment_def substring_slice)
  have g2: "?s \<le> ?e \<longrightarrow>
      \<lparr>text_seg = content_slice doc_content (spec_clamp doc_content ?s) (spec_clamp doc_content ?e),
       highlighted = True, annotation_seg = Some a\<rparr>
      \<in> set (segments_of (render doc_content docAnnotations))"
  proof
    assume "?s \<le> ?e"
    then have "substring doc_content ?s ?e =
        content_slice doc_content (spec_clamp doc_content ?s) (spec_clamp doc_content ?e)"
      by (rule substring_slice_ordered)
    with mem show "\<lparr>text_seg = content_slice doc_content (spec_clamp doc_content ?s) (spec_clamp doc_content ?e),
       highlighted = True, annotation_seg = Some a\<rparr>
      \<in> set (segments_of (render doc_content docAnnotations))"
      by (simp add: highlight_segment_def)
  qed
  have hi: "?hi \<le> length doc_content"
    by (simp add: spec_clamp_le)
  have len: "length (content_slice doc_content ?lo ?hi) = ?hi - ?lo"
    using hi by (intro length_content_slice) simp_all
  have all: "\<forall>seg\<in>set (segments_of (render doc_content docAnnotations)).
      sublist (text_seg seg) doc_content \<and> length (text_seg seg) \<le> length doc_content"
    using render_segment_sublist sublist_length_le by blast
  from g1 g2 len hi all show ?thesis by blast
qed

theorem out_of_range_offsets_clamped_witness:
  "ann_at 5 10000 \<in> set [ann_at 5 10000, ann_at (- 3) 2]
   \<and> spec_clamp doc20 5 = 5 \<and> spec_clamp doc20 10000 = 20
   \<and> \<lparr>text_seg = js ''fghijklmnopqrst'', highlighted = True,
        annotation_seg = Some (ann_at 5 10000)\<rparr>
        \<in> set (segments_of (render doc20 [ann_at 5 10000, ann_at (- 3) 2]))
   \<and> length (js ''fghijklmnopqrst'') = 20 - 5
   \<and> (20::nat) \<le> length doc20"
proof -
  have c: "spec_clamp doc20 5 = 5" "spec_clamp doc20 10000 = 20"
    by (simp_all add: spec_clamp_def length_doc20)
  have sl: "content_slice doc20 5 20 = js ''fghijklmnopqrst''"
    by (simp add: content_slice_def doc20_def js_def)
  show ?thesis
    using out_of_range_offsets_clamped [of "ann_at 5 10000" "[ann_at 5 10000, ann_at (- 3) 2]" doc20]
    by (simp add: ann_at_simps c sl length_doc20)
qed

text \<open>
  Claim C6. With no annotation the function returns the content itself: on the screen
  that is exactly one run of text, not highlighted, whose text is the whole content. So
  it is for a document that has no entry in the state and for one whose entry is the
  empty list.
\<close>
theorem render_no_annotations:
  "render doc_content [] = RawText doc_content
   \<and> segments_of (render doc_content []) =
       [\<lparr>text_seg = doc_content, highlighted = False, annotation_seg = None\<rparr>]
   \<and> renderDocumentWithHighlights (st\<lparr>annotations := (annotations st)(id_doc doc := None)\<rparr>) doc =
       RawText (content_doc doc)
   \<and> renderDocumentWithHighlights (st\<lparr>annotations := (annotations st)(id_doc doc \<mapsto> [])\<rparr>) doc =
       RawText (content_doc doc)"
  by (simp add: renderDocumentWithHighlights_def render_def segments_of_def plain_segment_def)

text \<open>
  Claim C7. When there is no selection, or the selection's string is empty or consists of
  white space only, the handler leaves the state as it was: no selected text is stored
  and the annotation form is not opened.
\<close>
theorem empty_selection_ignored:
  assumes "sel = None \<or> (\<exists>s. sel = Some s \<and> list_all is_js_whitespace (toString_sel s))"
  shows "handleTextSelection st doc_id sel container = st"
  using assms by (auto simp: handleTextSelection_def trim_Nil_iff)

theorem empty_selection_ignored_witness:
  "list_all is_js_whitespace (toString_sel (select_range (js ''  '') 0 1 0 3))
   \<and> handleTextSelection initial_state (js ''d1'') (Some (select_range (js ''  '') 0 1 0 3))
       (Some [js ''a  b'']) = initial_state"
  using empty_selection_ignored [of "Some (select_range (js ''  '') 0 1 0 3)" initial_state
      "js ''d1''" "Some [js ''a  b'']"]
  by (simp add: select_range_def js_def is_js_whitespace_def)

text \<open>
  Claim C8 at the colour name \<open>constructor\<close>. The name is not one of the five colours,
  but the lookup finds the property that every object inherits, which is truthy, so the
  \<^verbatim>\<open>||\<close> does not fall back and the result is not the yellow value. The five
  colour names map to their fixed values (\<open>getHighlightColor_known\<close>), a name that
  is neither a colour nor an inherited property gets the yellow value
  (\<open>getHighlightColor_default\<close>), and so does a missing or empty name, which the call
  site replaces by \<open>yellow\<close> (\<open>getHighlightColor_missing\<close>).
\<close>
theorem getHighlightColor_inherited_name:
  "map_of colors (js ''constructor'') = None
   \<and> getHighlightColor (js ''constructor'') = JsInherited (js ''constructor'')
   \<and> getHighlightColor (js ''constructor'') \<noteq> JsString (js ''#fef08a'')"
  by (simp add: getHighlightColor_def get_property_def colors_def object_prototype_keys_def js_def)

text \<open>
  Claim C9. The annotations are processed in ascending order of \<open>position_start\<close>;
  annotations with the same \<open>position_start\<close> keep the order they had in the input
  (for every key \<open>k\<close> the annotations starting at \<open>k\<close> form the same list before and
  after the sort); and the highlighted segments follow exactly this order. The output is
  a function of the content and the input list.
\<close>
theorem highlights_sorted_stable:
  "sorted (map position_start (highlights docAnnotations))
   \<and> filter (\<lambda>a. position_start a = k) (highlights docAnnotations) =
       filter (\<lambda>a. position_start a = k) docAnnotations
   \<and> map annotation_seg (filter highlighted (build_segments doc_content docAnnotations)) =
       map Some (highlights docAnnotations)"
  by (simp add: highlights_sort_key sort_key_stable build_segments_walk filter_highlighted_walk
      highlight_segment_def comp_def)

text \<open>
  Claim C10, amended. For a non-empty annotation list the highlighted segments are, one
  for one and in sorted order, the annotations: each carries its annotation and the slice
  \<open>content[position_start:position_end]\<close> as \<^verbatim>\<open>substring\<close> cuts it, whatever the
  cursor is. No highlighted segment is skipped: a range of length zero gives a highlighted
  segment with empty text, and a range inside one emitted before gives its own slice
  again.
\<close>
theorem one_highlight_per_annotation:
  assumes "docAnnotations \<noteq> []"
  shows "filter highlighted (segments_of (render doc_content docAnnotations)) =
         map (\<lambda>a. \<lparr>text_seg = substring doc_content (position_start a) (position_end a),
                    highlighted = True, annotation_seg = Some a\<rparr>)
           (highlights docAnnotations)"
  using assms
  by (simp add: render_def segments_of_def build_segments_walk filter_highlighted_walk
      highlight_segment_def)

theorem one_highlight_per_annotation_witness:
  "[ann_at 0 10, ann_at 5 5, ann_at 3 3] \<noteq> []
   \<and> filter highlighted (segments_of (render doc20 [ann_at 0 10, ann_at 5 5, ann_at 3 3])) =
       [\<lparr>text_seg = js ''abcdefghij'', highlighted = True, annotation_seg = Some (ann_at 0 10)\<rparr>,
        \<lparr>text_seg = [], highlighted = True, annotation_seg = Some (ann_at 3 3)\<rparr>,
        \<lparr>text_seg = [], highlighted = True, annotation_seg = Some (ann_at 5 5)\<rparr>]"
  using one_highlight_per_annotation [of "[ann_at 0 10, ann_at 5 5, ann_at 3 3]" doc20]
  by (simp add: render_eval length_doc20) (simp add: doc20_def js_def)

text \<open>
  The range \<open>[2,5)\<close> lies inside \<open>[0,10)\<close>, and its highlighted segment is not empty:
  it is \<open>cde\<close> a second time.
\<close>
theorem one_highlight_per_annotation_counterexample:
  "map text_seg (filter highlighted (segments_of (render doc20 [ann_at 0 10, ann_at 2 5]))) =
     [js ''abcdefghij'', js ''cde'']
   \<and> js ''cde'' \<noteq> []"
  by (simp add: render_eval length_doc20) (simp add: doc20_def js_def)

end
